theory Spec2Isabelle
  imports Main "HOL-Library.Multiset"
begin

section \<open>Entity store\<close>

text \<open>
  The views of \<^verbatim>\<open>blog/views.py\<close> work on the tables of \<^verbatim>\<open>blog/models.py\<close> and on the
  user table of the authentication framework. A table is the list of its rows; a foreign
  key is the primary key of the row it refers to, as the database stores it.
\<close>

record user =
  user_pk :: nat
  username :: string

text \<open>
  Modelled from the spec: \<^verbatim>\<open>blog/models.py\<close> (Category, Post, Comment) is not among the
  sources. The fields are the ones the views read: a Category has a unique slug and a
  published flag; a Post has an author, an optional category, a published flag and a
  publication timestamp; a Comment belongs to one Post and one author. Location is
  displayed only and is left out.
\<close>

record category =
  category_pk :: nat
  slug :: string
  cat_is_published :: bool

record post =
  post_pk :: nat
  author_id :: nat
  category_id :: "nat option"
  is_published :: bool
  pub_date :: int
  title :: string
  post_text :: string

record comment =
  comment_pk :: nat
  comment_post_id :: nat
  comment_author_id :: nat
  comment_text :: string
  created_at :: int

record store =
  users :: "user list"
  categories :: "category list"
  posts :: "post list"
  comments :: "comment list"

text \<open>
  Primary keys, slugs and usernames are unique in every database state; each theorem below
  assumes the uniqueness it needs as \<open>distinct (map key table)\<close>.
\<close>

section \<open>Requests, responses and errors\<close>

text \<open>\<^verbatim>\<open>request.user\<close> is the anonymous user or a row of the user table.\<close>

datatype request_user = AnonymousUser | User user

fun is_authenticated :: "request_user \<Rightarrow> bool" where
  "is_authenticated AnonymousUser = False"
| "is_authenticated (User u) = True"

text \<open>
  \<^verbatim>\<open>obj.author == request.user\<close>: model instances are equal when their primary keys are;
  the anonymous user is equal to no row.
\<close>

fun author_eq :: "nat \<Rightarrow> request_user \<Rightarrow> bool" where
  "author_eq aid AnonymousUser = False"
| "author_eq aid (User u) = (aid = user_pk u)"

text \<open>The keyword arguments the URL resolver passes to a view; an absent key is None.\<close>

record kwargs =
  kw_pk :: "nat option"
  kw_post_id :: "nat option"
  kw_comment_id :: "nat option"
  kw_username :: "string option"
  kw_category_slug :: "string option"

datatype error =
  Http404 | PermissionDenied | AttributeError | KeyError | TypeError
  | DoesNotExist | MultipleObjectsReturned | NoReverseMatch

datatype url = blog_index | blog_post_detail nat | blog_profile string | LOGIN_URL

datatype response = TemplateResponse string | HttpResponseRedirect url

text \<open>
  Modelled from the spec: \<^verbatim>\<open>blog/forms.py\<close> (PostForm, CommentForm) is not among the
  sources. A bound form carries the outcome of its validation and the values it would
  write to the instance; the author and the primary key are not form fields.
\<close>

record post_form =
  pf_is_valid :: bool
  pf_title :: string
  pf_text :: string
  pf_pub_date :: int
  pf_is_published :: bool
  pf_category_id :: "nat option"

record comment_form =
  cf_is_valid :: bool
  cf_text :: string

datatype 'f http_method = GET | POST 'f

section \<open>Framework operations\<close>

text \<open>\<^verbatim>\<open>QuerySet.get()\<close>: the single row of the query set.\<close>

fun queryset_get :: "'a list \<Rightarrow> error + 'a" where
  "queryset_get [] = Inl DoesNotExist"
| "queryset_get [x] = Inr x"
| "queryset_get (x # y # zs) = Inl MultipleObjectsReturned"

definition get_object_or_404 :: "'a list \<Rightarrow> ('a \<Rightarrow> bool) \<Rightarrow> error + 'a" where
  "get_object_or_404 klass cond =
     (case queryset_get (filter cond klass) of
        Inl DoesNotExist \<Rightarrow> Inl Http404
      | Inl e \<Rightarrow> Inl e
      | Inr obj \<Rightarrow> Inr obj)"

text \<open>
  \<^verbatim>\<open>SingleObjectMixin.get_object\<close> on a query set, with the value of the view's
  \<^verbatim>\<open>pk_url_kwarg\<close>. No route of this application passes a slug.
\<close>

definition SingleObjectMixin_get_object ::
  "'a list \<Rightarrow> ('a \<Rightarrow> nat) \<Rightarrow> nat option \<Rightarrow> error + 'a" where
  "SingleObjectMixin_get_object queryset pk_of pk =
     (case pk of
        None \<Rightarrow> Inl AttributeError
      | Some k \<Rightarrow>
          (case queryset_get (filter (\<lambda>x. pk_of x = k) queryset) of
             Inl DoesNotExist \<Rightarrow> Inl Http404
           | Inl e \<Rightarrow> Inl e
           | Inr obj \<Rightarrow> Inr obj))"

text \<open>\<^verbatim>\<open>reverse('blog:post_detail', kwargs={'post_id': v})\<close>.\<close>

definition reverse_post_detail :: "nat option \<Rightarrow> error + url" where
  "reverse_post_detail v =
     (case v of None \<Rightarrow> Inl NoReverseMatch | Some k \<Rightarrow> Inr (blog_post_detail k))"

text \<open>
  \<^verbatim>\<open>order_by('-field')\<close>: descending in the field. The database leaves the order of
  rows with equal keys open; here they come in the reverse of a stable ascending sort.
\<close>

definition order_by_desc :: "('a \<Rightarrow> int) \<Rightarrow> 'a list \<Rightarrow> 'a list" where
  "order_by_desc key xs = rev (sort_key key xs)"

text \<open>\<^verbatim>\<open>annotate(comment_count=Count('comments'))\<close>: the related Comment rows of each post.\<close>

definition Count_comments :: "store \<Rightarrow> post \<Rightarrow> nat" where
  "Count_comments s p = length (filter (\<lambda>c. comment_post_id c = post_pk p) (comments s))"

definition annotate_comment_count :: "store \<Rightarrow> post list \<Rightarrow> (post \<times> nat) list" where
  "annotate_comment_count s qs = map (\<lambda>p. (p, Count_comments s p)) qs"

text \<open>
  The lookup \<^verbatim>\<open>category__is_published=True\<close>: an inner join with the category table,
  which drops the posts without a category.
\<close>

definition category_join_is_published :: "store \<Rightarrow> post \<Rightarrow> bool" where
  "category_join_is_published s p =
     (case category_id p of
        None \<Rightarrow> False
      | Some cid \<Rightarrow> list_ex (\<lambda>c. category_pk c = cid \<and> cat_is_published c) (categories s))"

text \<open>
  \<^verbatim>\<open>Paginator.page\<close> as \<^verbatim>\<open>ListView.paginate_queryset\<close> calls it (no orphans, an empty
  first page allowed): an invalid page number is answered with Http404.
\<close>

definition num_pages :: "nat \<Rightarrow> nat \<Rightarrow> nat" where
  "num_pages per_page cnt = (max 1 cnt + per_page - 1) div per_page"

definition Paginator_page :: "nat \<Rightarrow> 'a list \<Rightarrow> int \<Rightarrow> error + 'a list" where
  "Paginator_page per_page object_list number =
     (if number < 1 then Inl Http404
      else if num_pages per_page (length object_list) < nat number then Inl Http404
      else Inr (take per_page (drop ((nat number - 1) * per_page) object_list)))"

text \<open>The \<^verbatim>\<open>page\<close> query parameter, 1 when absent.\<close>

definition page_number :: "int option \<Rightarrow> int" where
  "page_number page = (case page of None \<Rightarrow> 1 | Some n \<Rightarrow> n)"

definition paginate_by :: nat where
  "paginate_by = 10"

section \<open>Listing views\<close>

subsection \<open>PostListView\<close>

definition PostListView_get_queryset :: "store \<Rightarrow> int \<Rightarrow> (post \<times> nat) list" where
  "PostListView_get_queryset s now =
     annotate_comment_count s
       (order_by_desc pub_date
          (filter (\<lambda>p. is_published p \<and> pub_date p \<le> now \<and> category_join_is_published s p)
             (posts s)))"

definition PostListView_get :: "store \<Rightarrow> int \<Rightarrow> int option \<Rightarrow> error + (post \<times> nat) list" where
  "PostListView_get s now page =
     Paginator_page paginate_by (PostListView_get_queryset s now) (page_number page)"

subsection \<open>ProfileView\<close>

definition ProfileView_get_queryset :: "store \<Rightarrow> kwargs \<Rightarrow> error + (post \<times> nat) list" where
  "ProfileView_get_queryset s kw =
     (case kw_username kw of
        None \<Rightarrow> Inl KeyError
      | Some name \<Rightarrow>
          (case get_object_or_404 (users s) (\<lambda>u. username u = name) of
             Inl e \<Rightarrow> Inl e
           | Inr profile \<Rightarrow>
               Inr (order_by_desc (\<lambda>a. pub_date (fst a))
                      (annotate_comment_count s
                         (filter (\<lambda>p. author_id p = user_pk profile) (posts s))))))"

text \<open>The page of posts and the \<^verbatim>\<open>profile\<close> entry of the context.\<close>

definition ProfileView_get ::
  "store \<Rightarrow> kwargs \<Rightarrow> int option \<Rightarrow> error + ((post \<times> nat) list \<times> user)" where
  "ProfileView_get s kw page =
     (case ProfileView_get_queryset s kw of
        Inl e \<Rightarrow> Inl e
      | Inr qs \<Rightarrow>
          (case Paginator_page paginate_by qs (page_number page) of
             Inl e \<Rightarrow> Inl e
           | Inr page_obj \<Rightarrow>
               (case kw_username kw of
                  None \<Rightarrow> Inl KeyError
                | Some name \<Rightarrow>
                    (case get_object_or_404 (users s) (\<lambda>u. username u = name) of
                       Inl e \<Rightarrow> Inl e
                     | Inr profile \<Rightarrow> Inr (page_obj, profile)))))"

subsection \<open>CategoryPostsView\<close>

text \<open>The query set together with \<^verbatim>\<open>self.category\<close>.\<close>

definition CategoryPostsView_get_queryset ::
  "store \<Rightarrow> int \<Rightarrow> kwargs \<Rightarrow> error + ((post \<times> nat) list \<times> category)" where
  "CategoryPostsView_get_queryset s now kw =
     (case kw_category_slug kw of
        None \<Rightarrow> Inl KeyError
      | Some sl \<Rightarrow>
          (case get_object_or_404 (categories s) (\<lambda>c. slug c = sl \<and> cat_is_published c) of
             Inl e \<Rightarrow> Inl e
           | Inr cat \<Rightarrow>
               Inr (filter (\<lambda>a. category_join_is_published s (fst a))
                      (annotate_comment_count s
                         (order_by_desc pub_date
                            (filter (\<lambda>p. is_published p \<and> pub_date p \<le> now
                                          \<and> category_id p = Some (category_pk cat))
                               (posts s)))),
                    cat)))"

text \<open>The page of posts and the \<^verbatim>\<open>category\<close> entry of the context.\<close>

definition CategoryPostsView_get ::
  "store \<Rightarrow> int \<Rightarrow> kwargs \<Rightarrow> int option \<Rightarrow> error + ((post \<times> nat) list \<times> category)" where
  "CategoryPostsView_get s now kw page =
     (case CategoryPostsView_get_queryset s now kw of
        Inl e \<Rightarrow> Inl e
      | Inr (qs, cat) \<Rightarrow>
          (case Paginator_page paginate_by qs (page_number page) of
             Inl e \<Rightarrow> Inl e
           | Inr page_obj \<Rightarrow> Inr (page_obj, cat)))"

section \<open>Post detail\<close>

text \<open>
  The attribute \<^verbatim>\<open>post.category\<close>: None for a null foreign key, the referenced row
  otherwise.
\<close>

definition post_category :: "store \<Rightarrow> post \<Rightarrow> error + category option" where
  "post_category s p =
     (case category_id p of
        None \<Rightarrow> Inr None
      | Some cid \<Rightarrow>
          (case queryset_get (filter (\<lambda>c. category_pk c = cid) (categories s)) of
             Inl e \<Rightarrow> Inl e
           | Inr c \<Rightarrow> Inr (Some c)))"

text \<open>
  \<^verbatim>\<open>PostDetailView.get_object\<close>. The condition is evaluated left to right with
  short-circuit \<^verbatim>\<open>or\<close> and \<^verbatim>\<open>and\<close>; reading \<^verbatim>\<open>is_published\<close> of None raises
  AttributeError.
\<close>

definition PostDetailView_get_object ::
  "store \<Rightarrow> int \<Rightarrow> request_user \<Rightarrow> kwargs \<Rightarrow> error + post" where
  "PostDetailView_get_object s now usr kw =
     (case get_object_or_404 (posts s) (\<lambda>p. Some (post_pk p) = kw_post_id kw) of
        Inl e \<Rightarrow> Inl e
      | Inr p \<Rightarrow>
          if author_eq (author_id p) usr then Inr p
          else if \<not> is_published p then Inl Http404
          else (case post_category s p of
                  Inl e \<Rightarrow> Inl e
                | Inr None \<Rightarrow> Inl AttributeError
                | Inr (Some cat) \<Rightarrow>
                    if \<not> cat_is_published cat then Inl Http404
                    else if pub_date p \<le> now then Inr p
                    else Inl Http404))"

text \<open>The detail page: the post and its comments, oldest first.\<close>

definition PostDetailView_get ::
  "store \<Rightarrow> int \<Rightarrow> request_user \<Rightarrow> kwargs \<Rightarrow> error + (post \<times> comment list)" where
  "PostDetailView_get s now usr kw =
     (case PostDetailView_get_object s now usr kw of
        Inl e \<Rightarrow> Inl e
      | Inr p \<Rightarrow>
          Inr (p, sort_key created_at
                    (filter (\<lambda>c. comment_post_id c = post_pk p) (comments s))))"

section \<open>Writing to the store\<close>

text \<open>\<^verbatim>\<open>Model.save()\<close> of a loaded instance updates the row with its primary key.\<close>

definition save_post :: "post \<Rightarrow> store \<Rightarrow> store" where
  "save_post obj s =
     s\<lparr>posts := map (\<lambda>x. if post_pk x = post_pk obj then obj else x) (posts s)\<rparr>"

definition save_comment :: "comment \<Rightarrow> store \<Rightarrow> store" where
  "save_comment obj s =
     s\<lparr>comments := map (\<lambda>x. if comment_pk x = comment_pk obj then obj else x) (comments s)\<rparr>"

text \<open>
  Modelled from the spec: the \<^verbatim>\<open>on_delete\<close> rule of \<^verbatim>\<open>Comment.post\<close> is declared in
  \<^verbatim>\<open>blog/models.py\<close>, which is not among the sources. Every Comment belongs to exactly
  one Post, so \<^verbatim>\<open>Model.delete()\<close> of a post takes its comments with it.
\<close>

definition delete_post :: "post \<Rightarrow> store \<Rightarrow> store" where
  "delete_post obj s =
     s\<lparr>posts := filter (\<lambda>x. post_pk x \<noteq> post_pk obj) (posts s),
       comments := filter (\<lambda>c. comment_post_id c \<noteq> post_pk obj) (comments s)\<rparr>"

definition delete_comment :: "comment \<Rightarrow> store \<Rightarrow> store" where
  "delete_comment obj s =
     s\<lparr>comments := filter (\<lambda>x. comment_pk x \<noteq> comment_pk obj) (comments s)\<rparr>"

definition PostForm_save :: "post_form \<Rightarrow> post \<Rightarrow> post" where
  "PostForm_save form obj =
     obj\<lparr>title := pf_title form, post_text := pf_text form, pub_date := pf_pub_date form,
         is_published := pf_is_published form, category_id := pf_category_id form\<rparr>"

definition CommentForm_save :: "comment_form \<Rightarrow> comment \<Rightarrow> comment" where
  "CommentForm_save form obj = obj\<lparr>comment_text := cf_text form\<rparr>"

section \<open>Post views that write\<close>

subsection \<open>PostUpdateView\<close>

text \<open>The view sets no \<^verbatim>\<open>pk_url_kwarg\<close>: the object is looked up by the \<^verbatim>\<open>pk\<close> argument.\<close>

definition PostUpdateView_get_object :: "store \<Rightarrow> kwargs \<Rightarrow> error + post" where
  "PostUpdateView_get_object s kw = SingleObjectMixin_get_object (posts s) post_pk (kw_pk kw)"

definition PostUpdateView_test_func :: "store \<Rightarrow> request_user \<Rightarrow> kwargs \<Rightarrow> error + bool" where
  "PostUpdateView_test_func s usr kw =
     (case PostUpdateView_get_object s kw of
        Inl e \<Rightarrow> Inl e
      | Inr obj \<Rightarrow> Inr (is_authenticated usr \<and> author_eq (author_id obj) usr))"

text \<open>\<^verbatim>\<open>UpdateView.dispatch\<close> for this view: the form on GET, the form's processing on POST.\<close>

definition PostUpdateView_super_dispatch ::
  "store \<Rightarrow> post_form http_method \<Rightarrow> kwargs \<Rightarrow> (error + response) \<times> store" where
  "PostUpdateView_super_dispatch s meth kw =
     (case PostUpdateView_get_object s kw of
        Inl e \<Rightarrow> (Inl e, s)
      | Inr obj \<Rightarrow>
          (case meth of
             GET \<Rightarrow> (Inr (TemplateResponse ''blog/create.html''), s)
           | POST form \<Rightarrow>
               if pf_is_valid form
               then (Inr (HttpResponseRedirect
                            (blog_post_detail (post_pk (PostForm_save form obj)))),
                     save_post (PostForm_save form obj) s)
               else (Inr (TemplateResponse ''blog/create.html''), s)))"

definition PostUpdateView_dispatch ::
  "store \<Rightarrow> request_user \<Rightarrow> post_form http_method \<Rightarrow> kwargs \<Rightarrow> (error + response) \<times> store" where
  "PostUpdateView_dispatch s usr meth kw =
     (case PostUpdateView_test_func s usr kw of
        Inl e \<Rightarrow> (Inl e, s)
      | Inr ok \<Rightarrow>
          if \<not> ok
          then (case kw_pk kw of
                  None \<Rightarrow> (Inl KeyError, s)
                | Some k \<Rightarrow> (Inr (HttpResponseRedirect (blog_post_detail k)), s))
          else PostUpdateView_super_dispatch s meth kw)"

subsection \<open>PostDeleteView\<close>

text \<open>Filtering on the anonymous user is a TypeError; the login check comes first.\<close>

definition PostDeleteView_get_queryset :: "store \<Rightarrow> request_user \<Rightarrow> error + post list" where
  "PostDeleteView_get_queryset s usr =
     (case usr of
        AnonymousUser \<Rightarrow> Inl TypeError
      | User u \<Rightarrow> Inr (filter (\<lambda>p. author_id p = user_pk u) (posts s)))"

text \<open>
  \<^verbatim>\<open>LoginRequiredMixin.dispatch\<close>, then \<^verbatim>\<open>DeleteView\<close>: the confirmation page on GET, the
  deletion and the redirect to \<^verbatim>\<open>success_url\<close> on POST.
\<close>

definition PostDeleteView_dispatch ::
  "store \<Rightarrow> request_user \<Rightarrow> unit http_method \<Rightarrow> kwargs \<Rightarrow> (error + response) \<times> store" where
  "PostDeleteView_dispatch s usr meth kw =
     (if \<not> is_authenticated usr then (Inr (HttpResponseRedirect LOGIN_URL), s)
      else (case PostDeleteView_get_queryset s usr of
              Inl e \<Rightarrow> (Inl e, s)
            | Inr qs \<Rightarrow>
                (case SingleObjectMixin_get_object qs post_pk (kw_post_id kw) of
                   Inl e \<Rightarrow> (Inl e, s)
                 | Inr obj \<Rightarrow>
                     (case meth of
                        GET \<Rightarrow> (Inr (TemplateResponse ''blog/create.html''), s)
                      | POST u \<Rightarrow>
                          (Inr (HttpResponseRedirect blog_index), delete_post obj s)))))"

section \<open>Comment views that write\<close>

subsection \<open>EditCommentView\<close>

definition EditCommentView_get_object :: "store \<Rightarrow> kwargs \<Rightarrow> error + comment" where
  "EditCommentView_get_object s kw =
     get_object_or_404 (comments s) (\<lambda>c. Some (comment_pk c) = kw_comment_id kw)"

text \<open>
  \<^verbatim>\<open>LoginRequiredMixin.dispatch\<close> and \<^verbatim>\<open>UpdateView\<close> behind the view's own check; the
  redirect after a valid form goes to \<^verbatim>\<open>success_url\<close>, which is \<^verbatim>\<open>blog:index\<close>.
\<close>

definition EditCommentView_super_dispatch ::
  "store \<Rightarrow> request_user \<Rightarrow> comment_form http_method \<Rightarrow> kwargs
     \<Rightarrow> (error + response) \<times> store" where
  "EditCommentView_super_dispatch s usr meth kw =
     (if \<not> is_authenticated usr then (Inr (HttpResponseRedirect LOGIN_URL), s)
      else (case EditCommentView_get_object s kw of
              Inl e \<Rightarrow> (Inl e, s)
            | Inr obj \<Rightarrow>
                (case meth of
                   GET \<Rightarrow> (Inr (TemplateResponse ''blog/comment.html''), s)
                 | POST form \<Rightarrow>
                     if cf_is_valid form
                     then (Inr (HttpResponseRedirect blog_index),
                           save_comment (CommentForm_save form obj) s)
                     else (Inr (TemplateResponse ''blog/comment.html''), s))))"

definition EditCommentView_dispatch ::
  "store \<Rightarrow> request_user \<Rightarrow> comment_form http_method \<Rightarrow> kwargs
     \<Rightarrow> (error + response) \<times> store" where
  "EditCommentView_dispatch s usr meth kw =
     (case EditCommentView_get_object s kw of
        Inl e \<Rightarrow> (Inl e, s)
      | Inr obj \<Rightarrow>
          if \<not> author_eq (comment_author_id obj) usr then (Inl PermissionDenied, s)
          else EditCommentView_super_dispatch s usr meth kw)"

subsection \<open>DeleteCommentView\<close>

definition DeleteCommentView_get_object :: "store \<Rightarrow> kwargs \<Rightarrow> error + comment" where
  "DeleteCommentView_get_object s kw =
     SingleObjectMixin_get_object (comments s) comment_pk (kw_comment_id kw)"

definition DeleteCommentView_get_success_url :: "kwargs \<Rightarrow> error + url" where
  "DeleteCommentView_get_success_url kw = reverse_post_detail (kw_post_id kw)"

text \<open>
  \<^verbatim>\<open>DeleteCommentView.post\<close> calls \<^verbatim>\<open>delete\<close>: the object is deleted, then the lazy
  success URL is resolved for the redirect.
\<close>

definition DeleteCommentView_super_dispatch ::
  "store \<Rightarrow> request_user \<Rightarrow> unit http_method \<Rightarrow> kwargs \<Rightarrow> (error + response) \<times> store" where
  "DeleteCommentView_super_dispatch s usr meth kw =
     (if \<not> is_authenticated usr then (Inr (HttpResponseRedirect LOGIN_URL), s)
      else (case DeleteCommentView_get_object s kw of
              Inl e \<Rightarrow> (Inl e, s)
            | Inr obj \<Rightarrow>
                (case meth of
                   GET \<Rightarrow> (Inr (TemplateResponse ''blog/comment.html''), s)
                 | POST u \<Rightarrow>
                     (case DeleteCommentView_get_success_url kw of
                        Inl e \<Rightarrow> (Inl e, delete_comment obj s)
                      | Inr target \<Rightarrow>
                          (Inr (HttpResponseRedirect target), delete_comment obj s)))))"

definition DeleteCommentView_dispatch ::
  "store \<Rightarrow> request_user \<Rightarrow> unit http_method \<Rightarrow> kwargs \<Rightarrow> (error + response) \<times> store" where
  "DeleteCommentView_dispatch s usr meth kw =
     (case DeleteCommentView_get_object s kw of
        Inl e \<Rightarrow> (Inl e, s)
      | Inr obj \<Rightarrow>
          if \<not> author_eq (comment_author_id obj) usr then (Inl PermissionDenied, s)
          else DeleteCommentView_super_dispatch s usr meth kw)"

section \<open>A sample database\<close>

definition alice :: user where
  "alice = \<lparr>user_pk = 1, username = ''alice''\<rparr>"

definition bob :: user where
  "bob = \<lparr>user_pk = 2, username = ''bob''\<rparr>"

definition travel :: category where
  "travel = \<lparr>category_pk = 1, slug = ''travel'', cat_is_published = True\<rparr>"

definition hidden :: category where
  "hidden = \<lparr>category_pk = 2, slug = ''hidden'', cat_is_published = False\<rparr>"

text \<open>A live post, a draft, a published post whose category was removed, a future post.\<close>

definition post1 :: post where
  "post1 = \<lparr>post_pk = 1, author_id = 1, category_id = Some 1, is_published = True,
            pub_date = 10, title = ''one'', post_text = ''first''\<rparr>"

definition post2 :: post where
  "post2 = \<lparr>post_pk = 2, author_id = 1, category_id = Some 2, is_published = False,
            pub_date = 20, title = ''two'', post_text = ''second''\<rparr>"

definition post3 :: post where
  "post3 = \<lparr>post_pk = 3, author_id = 1, category_id = None, is_published = True,
            pub_date = 30, title = ''three'', post_text = ''third''\<rparr>"

definition post4 :: post where
  "post4 = \<lparr>post_pk = 4, author_id = 2, category_id = Some 1, is_published = True,
            pub_date = 200, title = ''four'', post_text = ''fourth''\<rparr>"

definition comment1 :: comment where
  "comment1 = \<lparr>comment_pk = 1, comment_post_id = 1, comment_author_id = 1,
               comment_text = ''hello'', created_at = 11\<rparr>"

definition comment2 :: comment where
  "comment2 = \<lparr>comment_pk = 2, comment_post_id = 1, comment_author_id = 2,
               comment_text = ''hi'', created_at = 12\<rparr>"

definition db :: store where
  "db = \<lparr>users = [alice, bob], categories = [travel, hidden],
         posts = [post1, post2, post3, post4], comments = [comment1, comment2]\<rparr>"

definition no_kwargs :: kwargs where
  "no_kwargs = \<lparr>kw_pk = None, kw_post_id = None, kw_comment_id = None,
                kw_username = None, kw_category_slug = None\<rparr>"

definition comment_kwargs :: "nat \<Rightarrow> nat \<Rightarrow> kwargs" where
  "comment_kwargs pid cid = no_kwargs\<lparr>kw_post_id := Some pid, kw_comment_id := Some cid\<rparr>"

definition post_kwargs :: "nat \<Rightarrow> kwargs" where
  "post_kwargs pid = no_kwargs\<lparr>kw_post_id := Some pid\<rparr>"

text \<open>
  A store with eleven live posts, and the keyword arguments of the listing routes.
\<close>

definition archive_post :: "nat \<Rightarrow> post" where
  "archive_post n = \<lparr>post_pk = n, author_id = 1, category_id = Some 1, is_published = True,
                     pub_date = int n, title = ''entry'', post_text = ''body''\<rparr>"

definition archive :: store where
  "archive = \<lparr>users = [alice, bob], categories = [travel, hidden],
              posts = map archive_post [1, 2, 3, 4, 5, 6, 7, 8, 9, 10, 11],
              comments = [comment1, comment2]\<rparr>"

definition profile_kwargs :: "string \<Rightarrow> kwargs" where
  "profile_kwargs name = no_kwargs\<lparr>kw_username := Some name\<rparr>"

definition category_kwargs :: "string \<Rightarrow> kwargs" where
  "category_kwargs sl = no_kwargs\<lparr>kw_category_slug := Some sl\<rparr>"

lemmas db_defs =
  db_def alice_def bob_def travel_def hidden_def post1_def post2_def post3_def post4_def
  comment1_def comment2_def no_kwargs_def

section \<open>Lookups and pages\<close>

text \<open>
  A unique key selects its row.
\<close>

lemma filter_key_distinct:
  "distinct (map f xs) \<Longrightarrow> x \<in> set xs \<Longrightarrow> filter (\<lambda>y. f y = f x) xs = [x]"
proof (induction xs)
  case Nil
  then show ?case by simp
next
  case (Cons a xs)
  show ?case
  proof (cases "a = x")
    case True
    with Cons.prems have "f x \<notin> f ` set xs" by simp
    then have "filter (\<lambda>y. f y = f x) xs = []"
      by (force simp: filter_empty_conv image_iff)
    with True show ?thesis by simp
  next
    case False
    with Cons.prems have "x \<in> set xs" and "f a \<noteq> f x" by auto
    with Cons show ?thesis by simp
  qed
qed

lemma filter_key_absent:
  "k \<notin> f ` set xs \<Longrightarrow> filter (\<lambda>y. f y = k) xs = []"
  by (force simp: filter_empty_conv image_iff)

lemma get_object_found:
  assumes "distinct (map f xs)" and "x \<in> set xs"
  shows "SingleObjectMixin_get_object xs f (Some (f x)) = Inr x"
  using filter_key_distinct [OF assms]
  by (simp add: SingleObjectMixin_get_object_def)

lemma get_object_absent:
  assumes "k \<notin> f ` set xs"
  shows "SingleObjectMixin_get_object xs f (Some k) = Inl Http404"
  using filter_key_absent [OF assms]
  by (simp add: SingleObjectMixin_get_object_def)

lemma get_object_or_404_found:
  assumes "distinct (map f xs)" and "x \<in> set xs"
  shows "get_object_or_404 xs (\<lambda>y. Some (f y) = Some (f x)) = Inr x"
  using filter_key_distinct [OF assms]
  by (simp add: get_object_or_404_def)

lemma get_object_or_404_pk:
  assumes "distinct (map f xs)" and "x \<in> set xs" and "k = Some (f x)"
  shows "get_object_or_404 xs (\<lambda>y. Some (f y) = k) = Inr x"
  using get_object_or_404_found [OF assms(1,2)] assms(3) by simp

lemma get_object_scoped:
  assumes "distinct (map f xs)" and "x \<in> set xs"
  shows "SingleObjectMixin_get_object (filter Q xs) f (Some (f x)) =
           (if Q x then Inr x else Inl Http404)"
proof -
  have "filter (\<lambda>y. f y = f x) (filter Q xs) = filter Q (filter (\<lambda>y. f y = f x) xs)"
    by (simp add: conj_commute)
  with filter_key_distinct [OF assms] show ?thesis
    by (simp add: SingleObjectMixin_get_object_def)
qed

text \<open>
  Every row of a listing is on the page its position gives, and no page is longer than
  the page size.
\<close>

lemma num_pages_covers:
  assumes "0 < per" and "i < n"
  shows "i div per + 1 \<le> num_pages per n"
proof -
  from assms have "max 1 n = n" by simp
  moreover have "(n - 1 + per) div per = (n - 1) div per + 1"
    using assms(1) div_add_self2 [of per "n - 1"] by simp
  moreover from assms have "n + per - 1 = (n - 1) + per" by simp
  moreover from assms have "i div per \<le> (n - 1) div per"
    by (intro div_le_mono) simp
  ultimately show ?thesis by (simp only: num_pages_def)
qed

lemma Paginator_page_length:
  "Paginator_page per xs n = Inr pg \<Longrightarrow> length pg \<le> per"
  by (auto simp: Paginator_page_def split: if_splits)

lemma Paginator_page_nth:
  assumes "0 < per" and "i < length xs"
  shows "\<exists>pg. Paginator_page per xs (int (i div per) + 1) = Inr pg
            \<and> i mod per < length pg \<and> pg ! (i mod per) = xs ! i"
proof -
  let ?pg = "take per (drop (i div per * per) xs)"
  have n: "nat (int (i div per) + 1) = i div per + 1" by simp
  from num_pages_covers [OF assms] have "\<not> num_pages per (length xs) < i div per + 1"
    by simp
  then have "Paginator_page per xs (int (i div per) + 1) = Inr ?pg"
    by (simp add: Paginator_page_def n)
  moreover have i: "i div per * per + i mod per = i" by simp
  have "i mod per < per" using assms(1) by simp
  moreover have "i mod per < length xs - i div per * per"
    using assms(2) i by linarith
  ultimately show ?thesis
    using i by (simp add: add.commute)
qed

lemma Paginator_page_first: "Paginator_page per xs 1 = Inr (take per xs)" if "0 < per"
proof -
  have "1 \<le> num_pages per (length xs)"
    using that by (simp add: num_pages_def Suc_le_eq div_greater_zero_iff)
  then show ?thesis
  by (simp add: Paginator_page_def)
qed

section \<open>Viewing a post\<close>

lemma PostDetailView_lookup:
  assumes "distinct (map post_pk (posts s))" and "p \<in> set (posts s)"
    and "kw_post_id kw = Some (post_pk p)"
  shows "get_object_or_404 (posts s) (\<lambda>q. Some (post_pk q) = kw_post_id kw) = Inr p"
  by (rule get_object_or_404_pk [OF assms(1,2)]) (simp add: assms(3))

lemma post_category_found:
  assumes "distinct (map category_pk (categories s))" and "cat \<in> set (categories s)"
    and "category_id p = Some (category_pk cat)"
  shows "post_category s p = Inr (Some cat)"
  using filter_key_distinct [OF assms(1,2)] by (simp add: post_category_def assms(3))

text \<open>
  For a post that has a category, the detail request returns the post to its author, and
  to anybody else exactly when the post is published, its date has come and its category
  is published; every other request is answered with Http404.
\<close>

lemma PostDetailView_get_object_categorised:
  assumes "distinct (map post_pk (posts s))" and "p \<in> set (posts s)"
    and "kw_post_id kw = Some (post_pk p)"
    and "distinct (map category_pk (categories s))" and "cat \<in> set (categories s)"
    and "category_id p = Some (category_pk cat)"
  shows "PostDetailView_get_object s now usr kw =
           (if author_eq (author_id p) usr
               \<or> (is_published p \<and> pub_date p \<le> now \<and> cat_is_published cat)
            then Inr p else Inl Http404)"
  using PostDetailView_lookup [OF assms(1,2,3)] post_category_found [OF assms(4,5,6)]
  by (simp add: PostDetailView_get_object_def)

text \<open>
  C1. The visibility contract asks for Http404 in every case in which the post is not
  returned. A published post without a category, requested by anybody but its author, is
  such a case, and there the view raises AttributeError instead.
\<close>

theorem PostDetailView_null_category_error:
  "post3 \<in> set (posts db) \<and> category_id post3 = None \<and> is_published post3
   \<and> \<not> author_eq (author_id post3) (User bob)
   \<and> PostDetailView_get_object db 100 (User bob) (post_kwargs 3) = Inl AttributeError
   \<and> PostDetailView_get_object db 100 AnonymousUser (post_kwargs 3) = Inl AttributeError"
  by (simp add: PostDetailView_get_object_def get_object_or_404_def post_category_def
      db_defs post_kwargs_def)

text \<open>
  C5. For a post without a category and a requester who is not its author, the detail
  request is answered with Http404 only while the post is unpublished; for a published
  post the view raises AttributeError, where the claim asks for Http404.
\<close>

theorem PostDetailView_missing_category:
  assumes "distinct (map post_pk (posts s))" and "p \<in> set (posts s)"
    and "kw_post_id kw = Some (post_pk p)"
    and "category_id p = None" and "\<not> author_eq (author_id p) usr"
  shows "PostDetailView_get_object s now usr kw =
           (if is_published p then Inl AttributeError else Inl Http404)"
  using PostDetailView_lookup [OF assms(1,2,3)] assms(4,5)
  by (simp add: PostDetailView_get_object_def post_category_def)

theorem PostDetailView_missing_category_witness:
  "distinct (map post_pk (posts db)) \<and> post3 \<in> set (posts db)
   \<and> kw_post_id (post_kwargs 3) = Some (post_pk post3)
   \<and> category_id post3 = None \<and> \<not> author_eq (author_id post3) (User bob)
   \<and> is_published post3
   \<and> PostDetailView_get_object db 100 (User bob) (post_kwargs 3) = Inl AttributeError"
proof -
  have h1: "distinct (map post_pk (posts db))" by (simp add: db_defs)
  have h2: "post3 \<in> set (posts db)" by (simp add: db_defs)
  have h3: "kw_post_id (post_kwargs 3) = Some (post_pk post3)"
    by (simp add: db_defs post_kwargs_def)
  have h4: "category_id post3 = None" by (simp add: db_defs)
  have h5: "\<not> author_eq (author_id post3) (User bob)" by (simp add: db_defs)
  have h6: "is_published post3" by (simp add: db_defs)
  from PostDetailView_missing_category [OF h1 h2 h3 h4 h5] h1 h2 h3 h4 h5 h6
  show ?thesis by simp
qed

section \<open>Editing a post\<close>

text \<open>
  C2. For an existing post and a requester who is not its authenticated author (the
  anonymous user included), the edit request raises no error and leaves the store as it
  is, whatever the HTTP verb and the form; the response is a redirect to the detail view of
  that post.
\<close>

theorem PostUpdateView_soft_denial:
  assumes "distinct (map post_pk (posts s))" and "p \<in> set (posts s)"
    and "kw_pk kw = Some (post_pk p)"
    and "\<not> (is_authenticated usr \<and> author_eq (author_id p) usr)"
  shows "PostUpdateView_dispatch s usr meth kw =
           (Inr (HttpResponseRedirect (blog_post_detail (post_pk p))), s)"
  using assms(3,4) get_object_found [OF assms(1,2)]
  by (simp add: PostUpdateView_dispatch_def PostUpdateView_test_func_def
      PostUpdateView_get_object_def)

theorem PostUpdateView_soft_denial_witness:
  "distinct (map post_pk (posts db)) \<and> post1 \<in> set (posts db)
   \<and> kw_pk (no_kwargs\<lparr>kw_pk := Some 1\<rparr>) = Some (post_pk post1)
   \<and> \<not> (is_authenticated AnonymousUser \<and> author_eq (author_id post1) AnonymousUser)
   \<and> PostUpdateView_dispatch db AnonymousUser (POST \<lparr>pf_is_valid = True, pf_title = ''x'', pf_text = ''y'', pf_pub_date = 0, pf_is_published = True, pf_category_id = None\<rparr>) (no_kwargs\<lparr>kw_pk := Some 1\<rparr>)
       = (Inr (HttpResponseRedirect (blog_post_detail 1)), db)"
proof -
  have h1: "distinct (map post_pk (posts db))" by (simp add: db_defs)
  have h2: "post1 \<in> set (posts db)" by (simp add: db_defs)
  have h3: "kw_pk (no_kwargs\<lparr>kw_pk := Some 1\<rparr>) = Some (post_pk post1)" by (simp add: db_defs)
  have h4: "\<not> (is_authenticated AnonymousUser \<and> author_eq (author_id post1) AnonymousUser)" by simp
  have "post_pk post1 = 1" by (simp add: post1_def)
  with PostUpdateView_soft_denial [OF h1 h2 h3 h4] h1 h2 h3 h4 show ?thesis by simp
qed

section \<open>Deleting a post\<close>

lemma delete_post_gone: "post_pk p \<notin> post_pk ` set (posts (delete_post p s))"
  by (auto simp: delete_post_def)

text \<open>
  C4, as claimed for every requester other than the author: the anonymous requester is
  not answered with Http404 but redirected to the login page.
\<close>

theorem PostDeleteView_anonymous_counterexample:
  "post1 \<in> set (posts db) \<and> kw_post_id (post_kwargs 1) = Some (post_pk post1)
   \<and> \<not> author_eq (author_id post1) AnonymousUser
   \<and> PostDeleteView_dispatch db AnonymousUser (POST ()) (post_kwargs 1)
        = (Inr (HttpResponseRedirect LOGIN_URL), db)
   \<and> fst (PostDeleteView_dispatch db AnonymousUser (POST ()) (post_kwargs 1)) \<noteq> Inl Http404"
  by (simp add: PostDeleteView_dispatch_def db_defs post_kwargs_def)

text \<open>
  C4, amended. The anonymous requester is redirected to the login page and the store is
  unchanged. For an authenticated requester the candidates are the posts that requester
  wrote: a requester who is not the author of the post gets Http404 and the store is
  unchanged; the author gets the confirmation page on GET, and on POST the post is
  deleted (no post with its key remains, the other posts stay) and the response is a
  redirect to the global feed.
\<close>

theorem PostDeleteView_scoping:
  assumes "distinct (map post_pk (posts s))" and "p \<in> set (posts s)"
    and "kw_post_id kw = Some (post_pk p)"
  shows "PostDeleteView_dispatch s AnonymousUser meth kw
           = (Inr (HttpResponseRedirect LOGIN_URL), s)
       \<and> PostDeleteView_get_queryset s (User u)
           = Inr (filter (\<lambda>q. author_id q = user_pk u) (posts s))
       \<and> PostDeleteView_dispatch s (User u) meth kw
           = (if author_id p \<noteq> user_pk u then (Inl Http404, s)
              else case meth of
                     GET \<Rightarrow> (Inr (TemplateResponse ''blog/create.html''), s)
                   | POST x \<Rightarrow> (Inr (HttpResponseRedirect blog_index), delete_post p s))
       \<and> post_pk p \<notin> post_pk ` set (posts (delete_post p s))
       \<and> filter (\<lambda>q. post_pk q \<noteq> post_pk p) (posts (delete_post p s))
           = filter (\<lambda>q. post_pk q \<noteq> post_pk p) (posts s)"
proof -
  have "SingleObjectMixin_get_object (filter (\<lambda>q. author_id q = user_pk u) (posts s))
          post_pk (kw_post_id kw) = (if author_id p = user_pk u then Inr p else Inl Http404)"
    using get_object_scoped [OF assms(1,2)] by (simp add: assms(3))
  then have "PostDeleteView_dispatch s (User u) meth kw
           = (if author_id p \<noteq> user_pk u then (Inl Http404, s)
              else case meth of
                     GET \<Rightarrow> (Inr (TemplateResponse ''blog/create.html''), s)
                   | POST x \<Rightarrow> (Inr (HttpResponseRedirect blog_index), delete_post p s))"
    by (simp add: PostDeleteView_dispatch_def PostDeleteView_get_queryset_def
        split: http_method.splits)
  moreover have "PostDeleteView_dispatch s AnonymousUser meth kw
           = (Inr (HttpResponseRedirect LOGIN_URL), s)"
    by (simp add: PostDeleteView_dispatch_def)
  moreover have "PostDeleteView_get_queryset s (User u)
           = Inr (filter (\<lambda>q. author_id q = user_pk u) (posts s))"
    by (simp add: PostDeleteView_get_queryset_def)
  moreover have "filter (\<lambda>q. post_pk q \<noteq> post_pk p) (posts (delete_post p s))
           = filter (\<lambda>q. post_pk q \<noteq> post_pk p) (posts s)"
    by (simp add: delete_post_def)
  ultimately show ?thesis
    using delete_post_gone [of p s] by simp
qed

theorem PostDeleteView_scoping_witness:
  "distinct (map post_pk (posts db)) \<and> post1 \<in> set (posts db)
   \<and> kw_post_id (post_kwargs 1) = Some (post_pk post1)
   \<and> PostDeleteView_dispatch db (User bob) (POST ()) (post_kwargs 1) = (Inl Http404, db)
   \<and> PostDeleteView_dispatch db (User alice) (POST ()) (post_kwargs 1)
        = (Inr (HttpResponseRedirect blog_index),
           db\<lparr>posts := [post2, post3, post4], comments := []\<rparr>)"
proof -
  have h1: "distinct (map post_pk (posts db))" by (simp add: db_defs)
  have h2: "post1 \<in> set (posts db)" by (simp add: db_defs)
  have h3: "kw_post_id (post_kwargs 1) = Some (post_pk post1)"
    by (simp add: db_defs post_kwargs_def)
  have d: "delete_post post1 db = db\<lparr>posts := [post2, post3, post4], comments := []\<rparr>"
    by (simp add: delete_post_def db_defs)
  have a: "author_id post1 \<noteq> user_pk bob" "author_id post1 = user_pk alice"
    by (simp_all add: db_defs)
  from PostDeleteView_scoping [OF h1 h2 h3, where u = bob and meth = "POST ()"]
    PostDeleteView_scoping [OF h1 h2 h3, where u = alice and meth = "POST ()"] h1 h2 h3 a d
  show ?thesis by simp
qed

section \<open>Editing and deleting a comment\<close>

lemma EditCommentView_get_object_found:
  assumes "distinct (map comment_pk (comments s))" and "c \<in> set (comments s)"
    and "kw_comment_id kw = Some (comment_pk c)"
  shows "EditCommentView_get_object s kw = Inr c"
  unfolding EditCommentView_get_object_def
  by (rule get_object_or_404_pk [OF assms(1,2)]) (simp add: assms(3))

lemma DeleteCommentView_get_object_found:
  assumes "distinct (map comment_pk (comments s))" and "c \<in> set (comments s)"
    and "kw_comment_id kw = Some (comment_pk c)"
  shows "DeleteCommentView_get_object s kw = Inr c"
  using get_object_found [OF assms(1,2)]
  by (simp add: DeleteCommentView_get_object_def assms(3))

lemma save_comment_mem:
  "c \<in> set (comments s) \<Longrightarrow> comment_pk c' = comment_pk c \<Longrightarrow> c' \<in> set (comments (save_comment c' s))"
  by (force simp: save_comment_def image_iff)

lemma save_comment_others:
  "comment_pk c' = k \<Longrightarrow>
   filter (\<lambda>x. comment_pk x \<noteq> k) (comments (save_comment c' s))
     = filter (\<lambda>x. comment_pk x \<noteq> k) (comments s)"
proof -
  have "comment_pk c' = k \<Longrightarrow>
        filter (\<lambda>x. comment_pk x \<noteq> k) (map (\<lambda>x. if comment_pk x = k then c' else x) xs)
          = filter (\<lambda>x. comment_pk x \<noteq> k) xs" for xs
    by (induction xs) simp_all
  then show "comment_pk c' = k \<Longrightarrow> ?thesis"
    by (simp add: save_comment_def)
qed

lemma delete_comment_gone:
  "comment_pk c \<notin> comment_pk ` set (comments (delete_comment c s))"
  by (auto simp: delete_comment_def)

text \<open>
  C3. For an existing comment and an authenticated requester who is not its author, the
  edit request and the delete request both raise PermissionDenied (HTTP 403) and leave the
  store as it is, whatever the HTTP verb and the form.
\<close>

theorem comment_mutation_by_non_owner:
  assumes "distinct (map comment_pk (comments s))" and "c \<in> set (comments s)"
    and "kw_comment_id kw = Some (comment_pk c)"
    and "user_pk u \<noteq> comment_author_id c"
  shows "EditCommentView_dispatch s (User u) m1 kw = (Inl PermissionDenied, s)
       \<and> DeleteCommentView_dispatch s (User u) m2 kw = (Inl PermissionDenied, s)"
proof -
  have "EditCommentView_get_object s kw = Inr c"
    unfolding EditCommentView_get_object_def
    by (rule get_object_or_404_pk [OF assms(1,2)]) (simp add: assms(3))
  moreover have "DeleteCommentView_get_object s kw = Inr c"
    using get_object_found [OF assms(1,2)]
    by (simp add: DeleteCommentView_get_object_def assms(3))
  ultimately show ?thesis
    using assms(4)
    by (auto simp: EditCommentView_dispatch_def DeleteCommentView_dispatch_def)
qed

theorem comment_mutation_by_non_owner_witness:
  "distinct (map comment_pk (comments db)) \<and> comment1 \<in> set (comments db)
   \<and> kw_comment_id (comment_kwargs 1 1) = Some (comment_pk comment1)
   \<and> user_pk bob \<noteq> comment_author_id comment1
   \<and> EditCommentView_dispatch db (User bob) (POST \<lparr>cf_is_valid = True, cf_text = ''mine''\<rparr>)
        (comment_kwargs 1 1) = (Inl PermissionDenied, db)
   \<and> DeleteCommentView_dispatch db (User bob) (POST ()) (comment_kwargs 1 1)
        = (Inl PermissionDenied, db)"
proof -
  have h1: "distinct (map comment_pk (comments db))" by (simp add: db_defs)
  have h2: "comment1 \<in> set (comments db)" by (simp add: db_defs)
  have h3: "kw_comment_id (comment_kwargs 1 1) = Some (comment_pk comment1)"
    by (simp add: db_defs comment_kwargs_def)
  have h4: "user_pk bob \<noteq> comment_author_id comment1" by (simp add: db_defs)
  from comment_mutation_by_non_owner [OF h1 h2 h3 h4] h1 h2 h3 h4 show ?thesis by simp
qed

text \<open>
  C9, as claimed: after a successful edit by the author the response does not redirect
  to the detail view of the post that owns the comment.
\<close>

theorem EditCommentView_redirect_counterexample:
  "comment1 \<in> set (comments db) \<and> author_eq (comment_author_id comment1) (User alice)
   \<and> EditCommentView_dispatch db (User alice) (POST \<lparr>cf_is_valid = True, cf_text = ''edited''\<rparr>)
        (comment_kwargs 1 1)
       = (Inr (HttpResponseRedirect blog_index),
          db\<lparr>comments := [comment1\<lparr>comment_text := ''edited''\<rparr>, comment2]\<rparr>)
   \<and> fst (EditCommentView_dispatch db (User alice)
            (POST \<lparr>cf_is_valid = True, cf_text = ''edited''\<rparr>) (comment_kwargs 1 1))
       \<noteq> Inr (HttpResponseRedirect (blog_post_detail (comment_post_id comment1)))"
  by (simp add: EditCommentView_dispatch_def EditCommentView_super_dispatch_def
      EditCommentView_get_object_def get_object_or_404_def save_comment_def
      CommentForm_save_def db_defs comment_kwargs_def)

text \<open>
  C9, amended. For an existing comment, its author as requester and a valid form, the
  edit request writes the form's text to the comment (the other comments stay as they
  are) and the response redirects to the global feed.
\<close>

theorem EditCommentView_success:
  assumes "distinct (map comment_pk (comments s))" and "c \<in> set (comments s)"
    and "kw_comment_id kw = Some (comment_pk c)"
    and "user_pk u = comment_author_id c" and "cf_is_valid form"
  shows "EditCommentView_dispatch s (User u) (POST form) kw
           = (Inr (HttpResponseRedirect blog_index),
              save_comment (c\<lparr>comment_text := cf_text form\<rparr>) s)
       \<and> c\<lparr>comment_text := cf_text form\<rparr> \<in> set (comments (save_comment (c\<lparr>comment_text := cf_text form\<rparr>) s))
       \<and> filter (\<lambda>x. comment_pk x \<noteq> comment_pk c)
            (comments (save_comment (c\<lparr>comment_text := cf_text form\<rparr>) s))
           = filter (\<lambda>x. comment_pk x \<noteq> comment_pk c) (comments s)"
proof -
  have "EditCommentView_dispatch s (User u) (POST form) kw
           = (Inr (HttpResponseRedirect blog_index),
              save_comment (c\<lparr>comment_text := cf_text form\<rparr>) s)"
    using EditCommentView_get_object_found [OF assms(1,2,3)] assms(4,5)
    by (simp add: EditCommentView_dispatch_def EditCommentView_super_dispatch_def
        CommentForm_save_def)
  moreover have "c\<lparr>comment_text := cf_text form\<rparr>
      \<in> set (comments (save_comment (c\<lparr>comment_text := cf_text form\<rparr>) s))"
    using save_comment_mem [OF assms(2)] by simp
  moreover have "filter (\<lambda>x. comment_pk x \<noteq> comment_pk c)
            (comments (save_comment (c\<lparr>comment_text := cf_text form\<rparr>) s))
           = filter (\<lambda>x. comment_pk x \<noteq> comment_pk c) (comments s)"
    by (rule save_comment_others) simp
  ultimately show ?thesis by simp
qed

theorem EditCommentView_success_witness:
  "distinct (map comment_pk (comments db)) \<and> comment1 \<in> set (comments db)
   \<and> kw_comment_id (comment_kwargs 1 1) = Some (comment_pk comment1)
   \<and> user_pk alice = comment_author_id comment1
   \<and> cf_is_valid \<lparr>cf_is_valid = True, cf_text = ''edited''\<rparr>
   \<and> EditCommentView_dispatch db (User alice) (POST \<lparr>cf_is_valid = True, cf_text = ''edited''\<rparr>)
        (comment_kwargs 1 1)
       = (Inr (HttpResponseRedirect blog_index),
          db\<lparr>comments := [comment1\<lparr>comment_text := ''edited''\<rparr>, comment2]\<rparr>)"
proof -
  have h1: "distinct (map comment_pk (comments db))" by (simp add: db_defs)
  have h2: "comment1 \<in> set (comments db)" by (simp add: db_defs)
  have h3: "kw_comment_id (comment_kwargs 1 1) = Some (comment_pk comment1)"
    by (simp add: db_defs comment_kwargs_def)
  have h4: "user_pk alice = comment_author_id comment1" by (simp add: db_defs)
  have h5: "cf_is_valid \<lparr>cf_is_valid = True, cf_text = ''edited''\<rparr>" by simp
  have sv: "save_comment (comment1\<lparr>comment_text := ''edited''\<rparr>) db
              = db\<lparr>comments := [comment1\<lparr>comment_text := ''edited''\<rparr>, comment2]\<rparr>"
    by (simp add: save_comment_def db_defs)
  from EditCommentView_success [OF h1 h2 h3 h4 h5] h1 h2 h3 h4 sv show ?thesis by simp
qed

text \<open>
  C10. Both comment views find the comment by the comment_id argument alone: whatever
  the post_id argument is, the author's valid edit is written to that comment and the
  author's delete request removes it, and the redirect after the deletion goes to the
  detail view of the post_id the URL named.
\<close>

theorem comment_views_ignore_post_id:
  assumes "distinct (map comment_pk (comments s))" and "c \<in> set (comments s)"
    and "kw_comment_id kw = Some (comment_pk c)"
    and "user_pk u = comment_author_id c" and "cf_is_valid form"
  shows "EditCommentView_get_object s (kw\<lparr>kw_post_id := pid\<rparr>) = Inr c
       \<and> DeleteCommentView_get_object s (kw\<lparr>kw_post_id := pid\<rparr>) = Inr c
       \<and> EditCommentView_dispatch s (User u) (POST form) (kw\<lparr>kw_post_id := pid\<rparr>)
           = (Inr (HttpResponseRedirect blog_index), save_comment (CommentForm_save form c) s)
       \<and> DeleteCommentView_get_success_url (kw\<lparr>kw_post_id := Some n\<rparr>)
           = Inr (blog_post_detail n)
       \<and> DeleteCommentView_dispatch s (User u) (POST ()) (kw\<lparr>kw_post_id := Some n\<rparr>)
           = (Inr (HttpResponseRedirect (blog_post_detail n)), delete_comment c s)
       \<and> comment_pk c \<notin> comment_pk ` set (comments (delete_comment c s))"
proof -
  have k: "kw_comment_id (kw\<lparr>kw_post_id := x\<rparr>) = Some (comment_pk c)" for x
    by (simp add: assms(3))
  note e = EditCommentView_get_object_found [OF assms(1,2) k]
  note d = DeleteCommentView_get_object_found [OF assms(1,2) k]
  have "EditCommentView_dispatch s (User u) (POST form) (kw\<lparr>kw_post_id := pid\<rparr>)
           = (Inr (HttpResponseRedirect blog_index), save_comment (CommentForm_save form c) s)"
    using e [of pid] assms(4,5)
    by (simp add: EditCommentView_dispatch_def EditCommentView_super_dispatch_def)
  moreover have u: "DeleteCommentView_get_success_url (kw\<lparr>kw_post_id := Some n\<rparr>)
           = Inr (blog_post_detail n)"
    by (simp add: DeleteCommentView_get_success_url_def reverse_post_detail_def)
  moreover have "DeleteCommentView_dispatch s (User u) (POST ()) (kw\<lparr>kw_post_id := Some n\<rparr>)
           = (Inr (HttpResponseRedirect (blog_post_detail n)), delete_comment c s)"
    using d [of "Some n"] assms(4) u
    by (simp add: DeleteCommentView_dispatch_def DeleteCommentView_super_dispatch_def)
  ultimately show ?thesis
    using e [of pid] d [of pid] delete_comment_gone [of c s] by simp
qed

theorem comment_views_ignore_post_id_witness:
  "distinct (map comment_pk (comments db)) \<and> comment1 \<in> set (comments db)
   \<and> kw_comment_id (comment_kwargs 1 1) = Some (comment_pk comment1)
   \<and> user_pk alice = comment_author_id comment1
   \<and> cf_is_valid \<lparr>cf_is_valid = True, cf_text = ''edited''\<rparr>
   \<and> comment_post_id comment1 = 1
   \<and> EditCommentView_dispatch db (User alice) (POST \<lparr>cf_is_valid = True, cf_text = ''edited''\<rparr>)
        (comment_kwargs 99 1)
       = (Inr (HttpResponseRedirect blog_index),
          db\<lparr>comments := [comment1\<lparr>comment_text := ''edited''\<rparr>, comment2]\<rparr>)
   \<and> DeleteCommentView_dispatch db (User alice) (POST ()) (comment_kwargs 99 1)
       = (Inr (HttpResponseRedirect (blog_post_detail 99)), db\<lparr>comments := [comment2]\<rparr>)"
proof -
  have h1: "distinct (map comment_pk (comments db))" by (simp add: db_defs)
  have h2: "comment1 \<in> set (comments db)" by (simp add: db_defs)
  have h3: "kw_comment_id (comment_kwargs 1 1) = Some (comment_pk comment1)"
    by (simp add: db_defs comment_kwargs_def)
  have h4: "user_pk alice = comment_author_id comment1" by (simp add: db_defs)
  have h5: "cf_is_valid \<lparr>cf_is_valid = True, cf_text = ''edited''\<rparr>" by simp
  have h6: "comment_post_id comment1 = 1" by (simp add: db_defs)
  have kw: "(comment_kwargs 1 1)\<lparr>kw_post_id := Some 99\<rparr> = comment_kwargs 99 1"
    by (simp add: comment_kwargs_def)
  have sv: "save_comment (CommentForm_save \<lparr>cf_is_valid = True, cf_text = ''edited''\<rparr> comment1) db
              = db\<lparr>comments := [comment1\<lparr>comment_text := ''edited''\<rparr>, comment2]\<rparr>"
    by (simp add: save_comment_def CommentForm_save_def db_defs)
  have dl: "delete_comment comment1 db = db\<lparr>comments := [comment2]\<rparr>"
    by (simp add: delete_comment_def db_defs)
  from comment_views_ignore_post_id [OF h1 h2 h3 h4 h5, where pid = "Some 99" and n = 99]
    h1 h2 h3 h4 h6 kw sv dl
  show ?thesis by simp
qed

section \<open>Listings\<close>

text \<open>
  Ordering keeps the rows and sorts them; the annotation pairs each post with the number
  of its comments.
\<close>

lemma mset_order_by_desc: "mset (order_by_desc k xs) = mset xs"
  by (simp add: order_by_desc_def)

lemma sorted_order_by_desc: "sorted_wrt (\<lambda>a b. k b \<le> k a) (order_by_desc k xs)"
proof -
  have "sorted_wrt (\<lambda>a b. k a \<le> k b) (sort_key k xs)"
    using sorted_sort_key [of k xs] by (simp add: sorted_wrt_map)
  then show ?thesis
    by (simp add: order_by_desc_def sorted_wrt_rev)
qed

lemma fst_annotate: "map fst (annotate_comment_count s xs) = xs"
  by (simp add: annotate_comment_count_def comp_def)

lemma sorted_annotate:
  "sorted_wrt (\<lambda>a b. k b \<le> k a) xs \<Longrightarrow>
   sorted_wrt (\<lambda>a b. k (fst b) \<le> k (fst a)) (annotate_comment_count s xs)"
  by (simp add: annotate_comment_count_def sorted_wrt_map)

lemma snd_annotate_mem:
  "a \<in> set (annotate_comment_count s xs) \<Longrightarrow>
   snd a = length (filter (\<lambda>c. comment_post_id c = post_pk (fst a)) (comments s))"
  by (auto simp: annotate_comment_count_def Count_comments_def)

lemma comment_counts:
  assumes "set qs \<subseteq> set (annotate_comment_count s xs)"
  shows "map snd qs
           = map (\<lambda>a. length (filter (\<lambda>c. comment_post_id c = post_pk (fst a)) (comments s))) qs"
  using assms by (intro map_cong refl snd_annotate_mem) auto

lemma category_join_iff:
  "category_join_is_published s p \<longleftrightarrow>
     (\<exists>c\<in>set (categories s). category_id p = Some (category_pk c) \<and> cat_is_published c)"
  by (auto simp: category_join_is_published_def list_ex_iff split: option.splits)

lemma paginated_rows:
  assumes "i < length qs"
  shows "\<exists>pg. Paginator_page paginate_by qs (page_number (Some (int (i div 10) + 1))) = Inr pg
            \<and> i mod 10 < length pg \<and> pg ! (i mod 10) = qs ! i"
  using Paginator_page_nth [of 10 i qs] assms by (simp add: paginate_by_def page_number_def)

lemma paginated_length:
  "Paginator_page paginate_by qs n = Inr pg \<Longrightarrow> length pg \<le> 10"
  using Paginator_page_length [of paginate_by qs n pg] by (simp add: paginate_by_def)

lemma archive_feed:
  "PostListView_get_queryset archive 100
     = [(archive_post 11, 0), (archive_post 10, 0), (archive_post 9, 0), (archive_post 8, 0),
        (archive_post 7, 0), (archive_post 6, 0), (archive_post 5, 0), (archive_post 4, 0),
        (archive_post 3, 0), (archive_post 2, 0), (archive_post 1, 2)]"
  by (simp add: PostListView_get_queryset_def annotate_comment_count_def order_by_desc_def
      category_join_is_published_def Count_comments_def archive_def archive_post_def db_defs)

text \<open>
  C6. The global feed holds exactly the posts that are published, dated not after now
  and in a published category, each once; it is in descending order of pub_date; every
  post is annotated with the number of Comment rows that refer to it; a page has at most
  10 rows, and the row at position i is row i mod 10 of page i div 10 + 1.
\<close>

theorem PostListView_feed:
  assumes "PostListView_get_queryset s now = qs"
  shows "mset (map fst qs)
           = mset (filter (\<lambda>p. is_published p \<and> pub_date p \<le> now
                 \<and> (\<exists>c\<in>set (categories s). category_id p = Some (category_pk c)
                        \<and> cat_is_published c)) (posts s))
       \<and> sorted_wrt (\<lambda>a b. pub_date (fst b) \<le> pub_date (fst a)) qs
       \<and> map snd qs
           = map (\<lambda>a. length (filter (\<lambda>c. comment_post_id c = post_pk (fst a)) (comments s))) qs
       \<and> (\<forall>pg. PostListView_get s now page = Inr pg \<longrightarrow> length pg \<le> 10)
       \<and> (\<forall>i<length qs. \<exists>pg. PostListView_get s now (Some (int (i div 10) + 1)) = Inr pg
              \<and> i mod 10 < length pg \<and> pg ! (i mod 10) = qs ! i)"
proof -
  let ?live = "\<lambda>p. is_published p \<and> pub_date p \<le> now \<and> category_join_is_published s p"
  have qs: "qs = annotate_comment_count s (order_by_desc pub_date (filter ?live (posts s)))"
    using assms by (simp add: PostListView_get_queryset_def)
  have "mset (map fst qs) = mset (filter ?live (posts s))"
    by (simp add: qs fst_annotate mset_order_by_desc)
  then have a: "mset (map fst qs)
           = mset (filter (\<lambda>p. is_published p \<and> pub_date p \<le> now
                 \<and> (\<exists>c\<in>set (categories s). category_id p = Some (category_pk c)
                        \<and> cat_is_published c)) (posts s))"
    by (simp only: category_join_iff)
  have b: "sorted_wrt (\<lambda>a b. pub_date (fst b) \<le> pub_date (fst a)) qs"
    unfolding qs by (rule sorted_annotate) (rule sorted_order_by_desc)
  have c: "map snd qs
           = map (\<lambda>a. length (filter (\<lambda>c. comment_post_id c = post_pk (fst a)) (comments s))) qs"
    unfolding qs by (rule comment_counts [OF subset_refl])
  have d: "\<forall>pg. PostListView_get s now page = Inr pg \<longrightarrow> length pg \<le> 10"
    by (auto simp: PostListView_get_def dest: paginated_length)
  have e: "\<forall>i<length qs. \<exists>pg. PostListView_get s now (Some (int (i div 10) + 1)) = Inr pg
              \<and> i mod 10 < length pg \<and> pg ! (i mod 10) = qs ! i"
    using paginated_rows [of _ qs] by (simp add: PostListView_get_def assms)
  from a b c d e show ?thesis by blast
qed

theorem PostListView_feed_witness:
  "PostListView_get_queryset archive 100
     = [(archive_post 11, 0), (archive_post 10, 0), (archive_post 9, 0), (archive_post 8, 0),
        (archive_post 7, 0), (archive_post 6, 0), (archive_post 5, 0), (archive_post 4, 0),
        (archive_post 3, 0), (archive_post 2, 0), (archive_post 1, 2)]
   \<and> PostListView_get archive 100 (Some 2) = Inr [(archive_post 1, 2)]
   \<and> length [(archive_post 1, 2::nat)] \<le> 10
   \<and> (10::nat) < 11
   \<and> (\<exists>pg. PostListView_get archive 100 (Some 2) = Inr pg \<and> 0 < length pg
          \<and> pg ! 0 = (archive_post 1, 2))"
proof -
  note q = archive_feed
  have p2: "PostListView_get archive 100 (Some 2) = Inr [(archive_post 1, 2)]"
    by (simp add: PostListView_get_def q Paginator_page_def num_pages_def paginate_by_def
        page_number_def)
  from PostListView_feed [OF q, of "Some 2"] have
    "\<forall>pg. PostListView_get archive 100 (Some 2) = Inr pg \<longrightarrow> length pg \<le> 10"
    and r: "\<forall>i<11. \<exists>pg. PostListView_get archive 100 (Some (int (i div 10) + 1)) = Inr pg
              \<and> i mod 10 < length pg
              \<and> pg ! (i mod 10) = [(archive_post 11, 0), (archive_post 10, 0), (archive_post 9, 0), (archive_post 8, 0),
        (archive_post 7, 0), (archive_post 6, 0), (archive_post 5, 0), (archive_post 4, 0),
        (archive_post 3, 0), (archive_post 2, 0), (archive_post 1, 2::nat)] ! i"
    by simp_all
  from r have "\<exists>pg. PostListView_get archive 100 (Some (int (10 div 10) + 1)) = Inr pg
              \<and> 10 mod 10 < length pg
              \<and> pg ! (10 mod 10) = [(archive_post 11, 0), (archive_post 10, 0), (archive_post 9, 0), (archive_post 8, 0),
        (archive_post 7, 0), (archive_post 6, 0), (archive_post 5, 0), (archive_post 4, 0),
        (archive_post 3, 0), (archive_post 2, 0), (archive_post 1, 2::nat)] ! 10"
    by (rule allE [where x = 10]) simp
  then have "\<exists>pg. PostListView_get archive 100 (Some 2) = Inr pg \<and> 0 < length pg
          \<and> pg ! 0 = (archive_post 1, 2)"
    by simp
  with q p2 show ?thesis by simp
qed

lemma Category_lookup_found:
  assumes "distinct (map slug (categories s))" and "c \<in> set (categories s)"
    and "cat_is_published c"
  shows "get_object_or_404 (categories s) (\<lambda>x. slug x = slug c \<and> cat_is_published x) = Inr c"
proof -
  have "filter (\<lambda>x. slug x = slug c \<and> cat_is_published x) (categories s)
          = filter cat_is_published (filter (\<lambda>x. slug x = slug c) (categories s))"
    by (simp add: conj_commute)
  with filter_key_distinct [OF assms(1,2)] assms(3) show ?thesis
    by (simp add: get_object_or_404_def)
qed

lemma Category_lookup_absent:
  assumes "\<forall>c\<in>set (categories s). slug c = sl \<longrightarrow> \<not> cat_is_published c"
  shows "get_object_or_404 (categories s) (\<lambda>x. slug x = sl \<and> cat_is_published x) = Inl Http404"
proof -
  from assms have "filter (\<lambda>x. slug x = sl \<and> cat_is_published x) (categories s) = []"
    by (auto simp: filter_empty_conv)
  then show ?thesis by (simp add: get_object_or_404_def)
qed

lemma CategoryPostsView_queryset_found:
  assumes "distinct (map slug (categories s))" and "c \<in> set (categories s)"
    and "cat_is_published c" and "kw_category_slug kw = Some (slug c)"
  shows "CategoryPostsView_get_queryset s now kw =
           Inr (annotate_comment_count s
                  (order_by_desc pub_date
                     (filter (\<lambda>p. is_published p \<and> pub_date p \<le> now
                                   \<and> category_id p = Some (category_pk c)) (posts s))), c)"
proof -
  let ?xs = "annotate_comment_count s
                  (order_by_desc pub_date
                     (filter (\<lambda>p. is_published p \<and> pub_date p \<le> now
                                   \<and> category_id p = Some (category_pk c)) (posts s)))"
  have "category_join_is_published s (fst a)" if "a \<in> set ?xs" for a
  proof -
    from that have "category_id (fst a) = Some (category_pk c)"
      by (auto simp: annotate_comment_count_def order_by_desc_def)
    with assms(2,3) show ?thesis
      by (auto simp: category_join_iff)
  qed
  then have "filter (\<lambda>a. category_join_is_published s (fst a)) ?xs = ?xs"
    by (simp add: filter_id_conv)
  with Category_lookup_found [OF assms(1,2,3)] show ?thesis
    by (simp add: CategoryPostsView_get_queryset_def assms(4))
qed

text \<open>
  C7. When no category has the slug of the URL, or the category that has it is
  unpublished, the category listing fails with Http404. When a published category has
  it, the listing holds exactly the posts of that category that are published and dated
  not after now, in descending order of pub_date and annotated with their comment counts;
  a page has at most 10 rows, every row is on its page, and the context holds that
  category.
\<close>

theorem CategoryPostsView_feed:
  assumes "distinct (map slug (categories s))" and "kw_category_slug kw = Some sl"
  shows "((\<forall>c\<in>set (categories s). slug c = sl \<longrightarrow> \<not> cat_is_published c)
            \<longrightarrow> CategoryPostsView_get s now kw page = Inl Http404)
       \<and> (c \<in> set (categories s) \<and> slug c = sl \<and> cat_is_published c
            \<longrightarrow> (\<exists>qs. CategoryPostsView_get_queryset s now kw = Inr (qs, c)
                  \<and> mset (map fst qs)
                      = mset (filter (\<lambda>p. is_published p \<and> pub_date p \<le> now
                                \<and> category_id p = Some (category_pk c)) (posts s))
                  \<and> sorted_wrt (\<lambda>a b. pub_date (fst b) \<le> pub_date (fst a)) qs
                  \<and> map snd qs
                      = map (\<lambda>a. length (filter (\<lambda>x. comment_post_id x = post_pk (fst a))
                                           (comments s))) qs
                  \<and> (\<forall>pg x. CategoryPostsView_get s now kw page = Inr (pg, x)
                        \<longrightarrow> length pg \<le> 10 \<and> x = c)
                  \<and> (\<forall>i<length qs. \<exists>pg.
                        CategoryPostsView_get s now kw (Some (int (i div 10) + 1)) = Inr (pg, c)
                        \<and> i mod 10 < length pg \<and> pg ! (i mod 10) = qs ! i)))"
proof (intro conjI impI)
  assume "\<forall>c\<in>set (categories s). slug c = sl \<longrightarrow> \<not> cat_is_published c"
  from Category_lookup_absent [OF this]
  show "CategoryPostsView_get s now kw page = Inl Http404"
    by (simp add: CategoryPostsView_get_def CategoryPostsView_get_queryset_def assms(2))
next
  assume c: "c \<in> set (categories s) \<and> slug c = sl \<and> cat_is_published c"
  let ?ps = "filter (\<lambda>p. is_published p \<and> pub_date p \<le> now
                                \<and> category_id p = Some (category_pk c)) (posts s)"
  let ?qs = "annotate_comment_count s (order_by_desc pub_date ?ps)"
  from c assms(2) have kw: "kw_category_slug kw = Some (slug c)" by simp
  have q: "CategoryPostsView_get_queryset s now kw = Inr (?qs, c)"
    using CategoryPostsView_queryset_found [OF assms(1) _ _ kw] c by simp
  have a: "mset (map fst ?qs) = mset ?ps"
    by (simp add: fst_annotate mset_order_by_desc)
  have b: "sorted_wrt (\<lambda>a b. pub_date (fst b) \<le> pub_date (fst a)) ?qs"
    by (rule sorted_annotate) (rule sorted_order_by_desc)
  have d: "map snd ?qs
             = map (\<lambda>a. length (filter (\<lambda>x. comment_post_id x = post_pk (fst a)) (comments s))) ?qs"
    by (rule comment_counts [OF subset_refl])
  have e: "\<forall>pg x. CategoryPostsView_get s now kw page = Inr (pg, x) \<longrightarrow> length pg \<le> 10 \<and> x = c"
    by (auto simp: CategoryPostsView_get_def q split: sum.splits dest: paginated_length)
  have f: "\<forall>i<length ?qs. \<exists>pg.
             CategoryPostsView_get s now kw (Some (int (i div 10) + 1)) = Inr (pg, c)
             \<and> i mod 10 < length pg \<and> pg ! (i mod 10) = ?qs ! i"
  proof (intro allI impI)
    fix i assume "i < length ?qs"
    from paginated_rows [OF this] obtain pg where
      "Paginator_page paginate_by ?qs (page_number (Some (int (i div 10) + 1))) = Inr pg"
      "i mod 10 < length pg" "pg ! (i mod 10) = ?qs ! i"
      by blast
    then show "\<exists>pg. CategoryPostsView_get s now kw (Some (int (i div 10) + 1)) = Inr (pg, c)
             \<and> i mod 10 < length pg \<and> pg ! (i mod 10) = ?qs ! i"
      by (simp add: CategoryPostsView_get_def q)
  qed
  from q a b d e f
  show "\<exists>qs. CategoryPostsView_get_queryset s now kw = Inr (qs, c)
                  \<and> mset (map fst qs)
                      = mset (filter (\<lambda>p. is_published p \<and> pub_date p \<le> now
                                \<and> category_id p = Some (category_pk c)) (posts s))
                  \<and> sorted_wrt (\<lambda>a b. pub_date (fst b) \<le> pub_date (fst a)) qs
                  \<and> map snd qs
                      = map (\<lambda>a. length (filter (\<lambda>x. comment_post_id x = post_pk (fst a))
                                           (comments s))) qs
                  \<and> (\<forall>pg x. CategoryPostsView_get s now kw page = Inr (pg, x)
                        \<longrightarrow> length pg \<le> 10 \<and> x = c)
                  \<and> (\<forall>i<length qs. \<exists>pg.
                        CategoryPostsView_get s now kw (Some (int (i div 10) + 1)) = Inr (pg, c)
                        \<and> i mod 10 < length pg \<and> pg ! (i mod 10) = qs ! i)"
    by (intro exI [of _ ?qs] conjI)
qed

theorem CategoryPostsView_feed_witness:
  "distinct (map slug (categories db))
   \<and> kw_category_slug (category_kwargs ''hidden'') = Some ''hidden''
   \<and> hidden \<in> set (categories db) \<and> \<not> cat_is_published hidden
   \<and> CategoryPostsView_get db 100 (category_kwargs ''hidden'') None = Inl Http404
   \<and> kw_category_slug (category_kwargs ''travel'') = Some ''travel''
   \<and> travel \<in> set (categories db) \<and> slug travel = ''travel'' \<and> cat_is_published travel
   \<and> CategoryPostsView_get_queryset db 100 (category_kwargs ''travel'')
        = Inr ([(post1, 2)], travel)
   \<and> CategoryPostsView_get db 100 (category_kwargs ''travel'') None
        = Inr ([(post1, 2)], travel)"
proof -
  have h1: "distinct (map slug (categories db))" by (simp add: db_defs)
  have h2: "kw_category_slug (category_kwargs ''hidden'') = Some ''hidden''"
    by (simp add: category_kwargs_def db_defs)
  have h3: "\<forall>c\<in>set (categories db). slug c = ''hidden'' \<longrightarrow> \<not> cat_is_published c"
    by (simp add: db_defs)
  have h4: "kw_category_slug (category_kwargs ''travel'') = Some ''travel''"
    by (simp add: category_kwargs_def db_defs)
  have h5: "travel \<in> set (categories db) \<and> slug travel = ''travel'' \<and> cat_is_published travel"
    by (simp add: db_defs)
  have h6: "hidden \<in> set (categories db) \<and> \<not> cat_is_published hidden"
    by (simp add: db_defs)
  from CategoryPostsView_feed [OF h1 h2, of 100 None] h3
  have a: "CategoryPostsView_get db 100 (category_kwargs ''hidden'') None = Inl Http404"
    by blast
  from CategoryPostsView_feed [OF h1 h4, of 100 None travel] h5
  obtain qs where q: "CategoryPostsView_get_queryset db 100 (category_kwargs ''travel'')
        = Inr (qs, travel)"
    by blast
  have e: "CategoryPostsView_get_queryset db 100 (category_kwargs ''travel'')
        = Inr ([(post1, 2)], travel)"
    by (simp add: CategoryPostsView_get_queryset_def get_object_or_404_def
        annotate_comment_count_def order_by_desc_def category_join_is_published_def
        Count_comments_def category_kwargs_def db_defs)
  then have g: "CategoryPostsView_get db 100 (category_kwargs ''travel'') None
        = Inr ([(post1, 2)], travel)"
    by (simp add: CategoryPostsView_get_def Paginator_page_def num_pages_def paginate_by_def
        page_number_def)
  from h1 h2 h4 h5 h6 a q e g show ?thesis by simp
qed

lemma User_lookup_found:
  assumes "distinct (map username (users s))" and "u \<in> set (users s)"
  shows "get_object_or_404 (users s) (\<lambda>x. username x = username u) = Inr u"
  using filter_key_distinct [OF assms] by (simp add: get_object_or_404_def)

text \<open>
  C8. For a user of the store, the profile listing for that username succeeds and holds
  exactly the posts whose author is that user, whatever their published flag, date or
  category, in descending order of pub_date and annotated with their comment counts; a
  page has at most 10 rows, every row is on its page, and the context holds that user.
  The requester is no argument of the view.
\<close>

theorem ProfileView_feed:
  assumes "distinct (map username (users s))" and "u \<in> set (users s)"
    and "kw_username kw = Some (username u)"
  shows "\<exists>qs. ProfileView_get_queryset s kw = Inr qs
           \<and> mset (map fst qs) = mset (filter (\<lambda>p. author_id p = user_pk u) (posts s))
           \<and> sorted_wrt (\<lambda>a b. pub_date (fst b) \<le> pub_date (fst a)) qs
           \<and> map snd qs
               = map (\<lambda>a. length (filter (\<lambda>x. comment_post_id x = post_pk (fst a))
                                    (comments s))) qs
           \<and> (\<forall>pg x. ProfileView_get s kw page = Inr (pg, x) \<longrightarrow> length pg \<le> 10 \<and> x = u)
           \<and> (\<forall>i<length qs. \<exists>pg.
                 ProfileView_get s kw (Some (int (i div 10) + 1)) = Inr (pg, u)
                 \<and> i mod 10 < length pg \<and> pg ! (i mod 10) = qs ! i)"
proof -
  let ?an = "annotate_comment_count s (filter (\<lambda>p. author_id p = user_pk u) (posts s))"
  let ?qs = "order_by_desc (\<lambda>a. pub_date (fst a)) ?an"
  note l = User_lookup_found [OF assms(1,2)]
  have q: "ProfileView_get_queryset s kw = Inr ?qs"
    using l by (simp add: ProfileView_get_queryset_def assms(3))
  have "mset (map fst ?qs) = image_mset fst (mset ?qs)"
    by simp
  also have "\<dots> = image_mset fst (mset ?an)"
    by (simp only: mset_order_by_desc)
  also have "\<dots> = mset (map fst ?an)"
    by simp
  finally have a: "mset (map fst ?qs) = mset (filter (\<lambda>p. author_id p = user_pk u) (posts s))"
    by (simp only: fst_annotate)
  have b: "sorted_wrt (\<lambda>a b. pub_date (fst b) \<le> pub_date (fst a)) ?qs"
    by (rule sorted_order_by_desc)
  have "set ?qs \<subseteq> set ?an"
    by (simp add: order_by_desc_def)
  then have d: "map snd ?qs
               = map (\<lambda>a. length (filter (\<lambda>x. comment_post_id x = post_pk (fst a))
                                    (comments s))) ?qs"
    by (rule comment_counts)
  have e: "\<forall>pg x. ProfileView_get s kw page = Inr (pg, x) \<longrightarrow> length pg \<le> 10 \<and> x = u"
    using l
    by (auto simp: ProfileView_get_def q assms(3) split: sum.splits dest: paginated_length)
  have f: "\<forall>i<length ?qs. \<exists>pg.
                 ProfileView_get s kw (Some (int (i div 10) + 1)) = Inr (pg, u)
                 \<and> i mod 10 < length pg \<and> pg ! (i mod 10) = ?qs ! i"
  proof (intro allI impI)
    fix i assume "i < length ?qs"
    from paginated_rows [OF this] obtain pg where
      "Paginator_page paginate_by ?qs (page_number (Some (int (i div 10) + 1))) = Inr pg"
      "i mod 10 < length pg" "pg ! (i mod 10) = ?qs ! i"
      by blast
    then show "\<exists>pg. ProfileView_get s kw (Some (int (i div 10) + 1)) = Inr (pg, u)
                 \<and> i mod 10 < length pg \<and> pg ! (i mod 10) = ?qs ! i"
      using l by (simp add: ProfileView_get_def q assms(3))
  qed
  from q a b d e f show ?thesis
    by (intro exI [of _ ?qs] conjI)
qed

theorem ProfileView_feed_witness:
  "distinct (map username (users db)) \<and> alice \<in> set (users db)
   \<and> kw_username (profile_kwargs ''alice'') = Some (username alice)
   \<and> ProfileView_get_queryset db (profile_kwargs ''alice'')
        = Inr [(post3, 0), (post2, 0), (post1, 2)]
   \<and> ProfileView_get db (profile_kwargs ''alice'') None
        = Inr ([(post3, 0), (post2, 0), (post1, 2)], alice)"
proof -
  have h1: "distinct (map username (users db))" by (simp add: db_defs)
  have h2: "alice \<in> set (users db)" by (simp add: db_defs)
  have h3: "kw_username (profile_kwargs ''alice'') = Some (username alice)"
    by (simp add: profile_kwargs_def db_defs)
  from ProfileView_feed [OF h1 h2 h3, of None]
  obtain qs where q: "ProfileView_get_queryset db (profile_kwargs ''alice'') = Inr qs"
    by blast
  have e: "ProfileView_get_queryset db (profile_kwargs ''alice'')
        = Inr [(post3, 0), (post2, 0), (post1, 2)]"
    by (simp add: ProfileView_get_queryset_def get_object_or_404_def
        annotate_comment_count_def order_by_desc_def Count_comments_def
        profile_kwargs_def db_defs)
  then have g: "ProfileView_get db (profile_kwargs ''alice'') None
        = Inr ([(post3, 0), (post2, 0), (post1, 2)], alice)"
    by (simp add: ProfileView_get_def Paginator_page_def num_pages_def paginate_by_def
        page_number_def)
       (simp add: get_object_or_404_def profile_kwargs_def db_defs)
  from h1 h2 h3 q e g show ?thesis by simp
qed

end
